theory Spec2Isabelle
  imports Main
begin

section \<open>Snapshot history of the slide editor (src/store/snapshot.ts)\<close>

text \<open>
  The store \<open>useSnapshotStore\<close> keeps a cursor and a length in memory and a table of
  snapshots in an indexed database. Its four actions (\<open>initSnapshotDatabase\<close>,
  \<open>addSnapshot\<close>, \<open>unDo\<close>, \<open>reDo\<close>) are embedded below as functions on an explicit
  state. The slide type is a type parameter: the actions never look inside a slide.
\<close>

subsection \<open>Data\<close>

text \<open>
  A row of the snapshot table: the \<open>Snapshot\<close> interface with its auto-incremented primary
  key. The source's field \<open>id\<close> is named \<open>id_key\<close> here.
\<close>

record 's Snapshot =
  id_key :: nat
  index :: int
  slides :: "'s list"

text \<open>
  Modelled from the spec: the table \<open>db.snapshots\<close> of \<open>@/utils/database\<close>, which is not
  among the sources. The spec describes it as an append-only, id-ordered persistent log whose
  ids are assigned on append and increase monotonically. The rows are held in ascending id
  order; \<open>next_id\<close> is the key the next append receives.
\<close>

record 's table =
  rows :: "'s Snapshot list"
  next_id :: nat

text \<open>The operations of the table that the store calls, and the ways an action can fail.\<close>

datatype log_op = Op_keys | Op_add | Op_update | Op_bulkDelete | Op_toArray

datatype error = LogFailure log_op | TypeError

text \<open>
  Which table operations fail during one call of an action. An action calls each operation
  at most once, so one flag for each operation describes every failure pattern of a call.
\<close>

type_synonym faults = "log_op \<Rightarrow> bool"

definition no_faults :: faults where
  "no_faults = (\<lambda>_. False)"

text \<open>
  Modelled from the spec: the slides store (\<open>./slides\<close>) and the main store (\<open>./main\<close>),
  which are not among the sources. The spec gives the document-model provider a current
  slide index and the current slides with the setters \<open>setSlides\<close> and \<open>updateSlideIndex\<close>,
  and the selection-state provider a list of active elements that
  \<open>setActiveElementIdList([])\<close> clears. They are three fields of the state below and the
  setters are assignments to them. The other three fields are the cursor and the length of
  the snapshot store and the table: together, everything the actions read and write.
\<close>

record 's state =
  snapshotCursor :: int
  snapshotLength :: int
  db_snapshots :: "'s table"
  slidesStore_slideIndex :: int
  slidesStore_slides :: "'s list"
  mainStore_activeElementIdList :: "string list"

subsection \<open>JavaScript arrays\<close>

text \<open>Indexing an array out of range yields \<open>undefined\<close>: \<open>None\<close> here.\<close>

definition js_nth :: "'a list \<Rightarrow> int \<Rightarrow> 'a option" where
  "js_nth xs i = (if 0 \<le> i \<and> i < int (length xs) then Some (xs ! nat i) else None)"

text \<open>\<open>xs.slice(start)\<close>: a negative start counts from the end of the array.\<close>

definition js_slice :: "'a list \<Rightarrow> int \<Rightarrow> 'a list" where
  "js_slice xs start =
     (if start < 0 then drop (nat (int (length xs) + start)) xs else drop (nat start) xs)"

subsection \<open>The table's operations\<close>

text \<open>
  Modelled from the spec: the five operations of the persistent ordered log (ordered key
  listing, append, field update by key, batched delete by key, ordered full read). A failing
  operation leaves the table as it was.
\<close>

definition table_keys :: "faults \<Rightarrow> 's table \<Rightarrow> error + nat list" where
  "table_keys fl t =
     (if fl Op_keys then Inl (LogFailure Op_keys) else Inr (map id_key (rows t)))"

definition table_add :: "faults \<Rightarrow> 's table \<Rightarrow> int \<Rightarrow> 's list \<Rightarrow> error + 's table" where
  "table_add fl t i sl =
     (if fl Op_add then Inl (LogFailure Op_add)
      else Inr (t\<lparr>rows := rows t @ [\<lparr>id_key = next_id t, index = i, slides = sl\<rparr>],
                 next_id := Suc (next_id t)\<rparr>))"

definition table_update :: "faults \<Rightarrow> 's table \<Rightarrow> nat \<Rightarrow> int \<Rightarrow> error + 's table" where
  "table_update fl t k i =
     (if fl Op_update then Inl (LogFailure Op_update)
      else Inr (t\<lparr>rows := map (\<lambda>r. if id_key r = k then r\<lparr>index := i\<rparr> else r) (rows t)\<rparr>))"

definition table_bulkDelete :: "faults \<Rightarrow> 's table \<Rightarrow> nat list \<Rightarrow> error + 's table" where
  "table_bulkDelete fl t ks =
     (if fl Op_bulkDelete then Inl (LogFailure Op_bulkDelete)
      else Inr (t\<lparr>rows := filter (\<lambda>r. id_key r \<notin> set ks) (rows t)\<rparr>))"

definition table_toArray :: "faults \<Rightarrow> 's table \<Rightarrow> error + 's Snapshot list" where
  "table_toArray fl t =
     (if fl Op_toArray then Inl (LogFailure Op_toArray) else Inr (rows t))"

subsection \<open>Getters\<close>

definition canUndo :: "'s state \<Rightarrow> bool" where
  "canUndo s = (snapshotCursor s > 0)"

definition canRedo :: "'s state \<Rightarrow> bool" where
  "canRedo s = (snapshotCursor s < snapshotLength s - 1)"

subsection \<open>Actions\<close>

text \<open>
  An action returns the rejection of its promise, if any, and the state it leaves. An awaited
  table operation that fails rejects the action at that point, with the state as it is then.
\<close>

definition initSnapshotDatabase :: "faults \<Rightarrow> 's state \<Rightarrow> error option \<times> 's state" where
  "initSnapshotDatabase fl s =
     (case table_add fl (db_snapshots s) (slidesStore_slideIndex s) (slidesStore_slides s) of
        Inl e \<Rightarrow> (Some e, s)
      | Inr t \<Rightarrow> (None, s\<lparr>db_snapshots := t, snapshotCursor := 0, snapshotLength := 1\<rparr>))"

text \<open>
  \<open>addSnapshot\<close>, statement by statement. Two points of the source are written out:
  \<^item> \<open>needDeleteKeys.push(allKeys[0])\<close> runs only when more than 20 snapshots would remain, so
    \<open>allKeys\<close> has at least 20 elements there and \<open>allKeys[0]\<close> is a key; likewise
    \<open>allKeys[snapshotLength - 2]\<close> is always a key. The \<open>None\<close> cases of the model stand for
    \<open>undefined\<close> and are never taken (lemmas \<open>evicted_key_exists\<close>, \<open>patched_key_exists\<close>).
  \<^item> \<open>db.snapshots.update(...)\<close> is not awaited: when it fails, the rejection belongs to a
    promise nobody holds, the table is not updated, and the action goes on.
\<close>

definition addSnapshot :: "faults \<Rightarrow> 's state \<Rightarrow> error option \<times> 's state" where
  "addSnapshot fl s =
     (case table_keys fl (db_snapshots s) of
        Inl e \<Rightarrow> (Some e, s)
      | Inr allKeys \<Rightarrow>
          let needDeleteKeys =
                (if snapshotCursor s \<ge> 0 \<and> snapshotCursor s < int (length allKeys) - 1
                 then js_slice allKeys (snapshotCursor s + 1) else [])
          in
          (case table_add fl (db_snapshots s) (slidesStore_slideIndex s) (slidesStore_slides s) of
             Inl e \<Rightarrow> (Some e, s)
           | Inr t1 \<Rightarrow>
               let s1 = s\<lparr>db_snapshots := t1\<rparr>;
                   snapshotLength0 = int (length allKeys) - int (length needDeleteKeys) + 1;
                   snapshotLengthLimit = 20;
                   needDeleteKeys' =
                     (if snapshotLength0 > snapshotLengthLimit
                      then (case js_nth allKeys 0 of
                              Some k \<Rightarrow> needDeleteKeys @ [k]
                            | None \<Rightarrow> needDeleteKeys)
                      else needDeleteKeys);
                   snapshotLength' =
                     (if snapshotLength0 > snapshotLengthLimit
                      then snapshotLength0 - 1 else snapshotLength0);
                   t2 =
                     (if snapshotLength' \<ge> 2
                      then (case js_nth allKeys (snapshotLength' - 2) of
                              Some k \<Rightarrow>
                                (case table_update fl t1 k (slidesStore_slideIndex s) of
                                   Inl e \<Rightarrow> t1
                                 | Inr t \<Rightarrow> t)
                            | None \<Rightarrow> t1)
                      else t1);
                   s2 = s1\<lparr>db_snapshots := t2\<rparr>
               in
               (case table_bulkDelete fl t2 needDeleteKeys' of
                  Inl e \<Rightarrow> (Some e, s2)
                | Inr t3 \<Rightarrow>
                    (None, s2\<lparr>db_snapshots := t3,
                              snapshotCursor := snapshotLength' - 1,
                              snapshotLength := snapshotLength'\<rparr>))))"

text \<open>
  \<open>unDo\<close> and \<open>reDo\<close>. Destructuring \<open>snapshots[snapshotCursor]\<close> throws a TypeError when
  the array has no element there; nothing has been written at that point.
\<close>

definition unDo :: "faults \<Rightarrow> 's state \<Rightarrow> error option \<times> 's state" where
  "unDo fl s =
     (if snapshotCursor s \<le> 0 then (None, s)
      else
        let snapshotCursor' = snapshotCursor s - 1 in
        (case table_toArray fl (db_snapshots s) of
           Inl e \<Rightarrow> (Some e, s)
         | Inr snapshots \<Rightarrow>
             (case js_nth snapshots snapshotCursor' of
                None \<Rightarrow> (Some TypeError, s)
              | Some snapshot \<Rightarrow>
                  let slideIndex =
                        (if index snapshot > int (length (slides snapshot)) - 1
                         then int (length (slides snapshot)) - 1 else index snapshot)
                  in (None, s\<lparr>slidesStore_slides := slides snapshot,
                              slidesStore_slideIndex := slideIndex,
                              snapshotCursor := snapshotCursor',
                              mainStore_activeElementIdList := []\<rparr>))))"

definition reDo :: "faults \<Rightarrow> 's state \<Rightarrow> error option \<times> 's state" where
  "reDo fl s =
     (if snapshotCursor s \<ge> snapshotLength s - 1 then (None, s)
      else
        let snapshotCursor' = snapshotCursor s + 1 in
        (case table_toArray fl (db_snapshots s) of
           Inl e \<Rightarrow> (Some e, s)
         | Inr snapshots \<Rightarrow>
             (case js_nth snapshots snapshotCursor' of
                None \<Rightarrow> (Some TypeError, s)
              | Some snapshot \<Rightarrow>
                  let slideIndex =
                        (if index snapshot > int (length (slides snapshot)) - 1
                         then int (length (slides snapshot)) - 1 else index snapshot)
                  in (None, s\<lparr>slidesStore_slides := slides snapshot,
                              slidesStore_slideIndex := slideIndex,
                              snapshotCursor := snapshotCursor',
                              mainStore_activeElementIdList := []\<rparr>))))"

subsection \<open>Sequences of calls\<close>

text \<open>
  What the host does to the store over time: the four actions, with every table operation
  succeeding, and between them edits of the document, which set the slides, the current
  slide index and the selection to anything.
\<close>

datatype 's call = Init | Record | Undo | Redo | Edit "'s list" int "string list"

fun step :: "'s call \<Rightarrow> 's state \<Rightarrow> 's state" where
  "step Init s = snd (initSnapshotDatabase no_faults s)"
| "step Record s = snd (addSnapshot no_faults s)"
| "step Undo s = snd (unDo no_faults s)"
| "step Redo s = snd (reDo no_faults s)"
| "step (Edit sl i sel) s =
     s\<lparr>slidesStore_slides := sl, slidesStore_slideIndex := i,
       mainStore_activeElementIdList := sel\<rparr>"

fun run :: "'s state \<Rightarrow> 's call list \<Rightarrow> 's state" where
  "run s [] = s"
| "run s (c # cs) = run (step c s) cs"

text \<open>The state before any action: the store's initial fields and an empty table.\<close>

definition uninitialized :: "'s state \<Rightarrow> bool" where
  "uninitialized s =
     (snapshotCursor s = - 1 \<and> snapshotLength s = 0 \<and> rows (db_snapshots s) = [])"

text \<open>
  A sequence of calls in which \<open>initSnapshotDatabase\<close> is called only while the table is
  still empty: no \<open>Init\<close> comes after an \<open>Init\<close> or a \<open>Record\<close>. The flag says whether
  one has been seen.
\<close>

fun init_on_empty :: "bool \<Rightarrow> 's call list \<Rightarrow> bool" where
  "init_on_empty started [] = True"
| "init_on_empty started (Init # cs) = (\<not> started \<and> init_on_empty True cs)"
| "init_on_empty started (Record # cs) = init_on_empty True cs"
| "init_on_empty started (c # cs) = init_on_empty started cs"

text \<open>
  The table's representation invariant: ids strictly increase along the rows and lie below
  the next id to assign.
\<close>

definition table_wf :: "'s table \<Rightarrow> bool" where
  "table_wf t =
     (sorted_wrt (<) (map id_key (rows t)) \<and> list_all (\<lambda>r. id_key r < next_id t) (rows t))"

subsection \<open>Auxiliary notions for the statements\<close>

text \<open>The rows \<open>rs\<close> with the \<open>index\<close> field of the row at position \<open>i\<close> set to \<open>v\<close>.\<close>

definition patched :: "'s Snapshot list \<Rightarrow> nat \<Rightarrow> int \<Rightarrow> 's Snapshot list" where
  "patched rs i v = rs[i := (rs ! i)\<lparr>index := v\<rparr>]"

text \<open>
  What \<open>unDo\<close> and \<open>reDo\<close> write when they restore the row \<open>snapshot\<close> and move the
  cursor to \<open>c\<close>.
\<close>

definition restore :: "'s state \<Rightarrow> int \<Rightarrow> 's Snapshot \<Rightarrow> 's state" where
  "restore s c snapshot =
     s\<lparr>slidesStore_slides := slides snapshot,
       slidesStore_slideIndex := min (index snapshot) (int (length (slides snapshot)) - 1),
       snapshotCursor := c,
       mainStore_activeElementIdList := []\<rparr>"

subsection \<open>Invariants of the history\<close>

text \<open>
  \<open>synced\<close>: cursor and length describe the table. \<open>recorded\<close>: the state right after a
  successful \<open>addSnapshot\<close>, with the cursor on the newest row, which holds the document.
  \<open>hist_inv\<close>: what every sequence of calls keeps, also one that calls
  \<open>initSnapshotDatabase\<close> on a table that already has rows (the length is then 1 whatever
  the table holds, until the next \<open>addSnapshot\<close>).
\<close>

definition recorded :: "'s state \<Rightarrow> bool" where
  "recorded s =
     (table_wf (db_snapshots s) \<and>
      snapshotLength s = int (length (rows (db_snapshots s))) \<and>
      1 \<le> snapshotLength s \<and> snapshotLength s \<le> 20 \<and>
      snapshotCursor s = snapshotLength s - 1 \<and>
      slides (last (rows (db_snapshots s))) = slidesStore_slides s \<and>
      index (last (rows (db_snapshots s))) = slidesStore_slideIndex s)"

definition synced :: "'s state \<Rightarrow> bool" where
  "synced s =
     (table_wf (db_snapshots s) \<and>
      snapshotLength s = int (length (rows (db_snapshots s))) \<and>
      snapshotLength s \<le> 20 \<and>
      0 \<le> snapshotCursor s \<and> snapshotCursor s < snapshotLength s)"

definition hist_inv :: "'s state \<Rightarrow> bool" where
  "hist_inv s =
     (table_wf (db_snapshots s) \<and>
      (uninitialized s \<or>
       0 \<le> snapshotCursor s \<and> snapshotCursor s < snapshotLength s \<and> snapshotLength s \<le> 20 \<and>
       (snapshotLength s = int (length (rows (db_snapshots s))) \<or>
        snapshotLength s = 1 \<and> 1 \<le> length (rows (db_snapshots s)))))"

subsection \<open>Concrete states\<close>

text \<open>One snapshot, cursor on it: undo and redo are both at their bounds.\<close>

definition boundary_state :: "nat state" where
  "boundary_state =
     \<lparr>snapshotCursor = 0, snapshotLength = 1,
      db_snapshots = \<lparr>rows = [\<lparr>id_key = 1, index = 0, slides = [10]\<rparr>], next_id = 2\<rparr>,
      slidesStore_slideIndex = 0, slidesStore_slides = [10],
      mainStore_activeElementIdList = [''e1'']\<rparr>"

text \<open>The store before any action, on a document of two slides.\<close>

definition fresh_state :: "nat state" where
  "fresh_state =
     \<lparr>snapshotCursor = - 1, snapshotLength = 0,
      db_snapshots = \<lparr>rows = [], next_id = 1\<rparr>,
      slidesStore_slideIndex = 1, slidesStore_slides = [10, 11],
      mainStore_activeElementIdList = []\<rparr>"

text \<open>
  Three snapshots, cursor on the middle one. The first and the last hold three slides and
  the stale focus index 7.
\<close>

definition clamp_state :: "nat state" where
  "clamp_state =
     \<lparr>snapshotCursor = 1, snapshotLength = 3,
      db_snapshots =
        \<lparr>rows = [\<lparr>id_key = 1, index = 7, slides = [10, 11, 12]\<rparr>,
                 \<lparr>id_key = 2, index = 0, slides = [10, 11, 12, 13, 14]\<rparr>,
                 \<lparr>id_key = 3, index = 7, slides = [20, 21, 22]\<rparr>],
         next_id = 4\<rparr>,
      slidesStore_slideIndex = 0, slidesStore_slides = [10, 11, 12, 13, 14],
      mainStore_activeElementIdList = [''e1'']\<rparr>"

text \<open>A session that starts with one \<open>initSnapshotDatabase\<close> and never calls it again.\<close>

definition session_calls :: "nat call list" where
  "session_calls =
     [Undo, Init, Edit [10, 11, 12] 2 [''e1''], Record, Undo, Redo, Edit [10, 12] 0 [], Record, Undo]"

text \<open>
  Four snapshots A, B, C, D, then two undos and an edit: the state \<open>abcd_state\<close>, with the
  cursor on B (lemma \<open>abcd_reached\<close>).
\<close>

definition abcd_calls :: "nat call list" where
  "abcd_calls =
     [Init, Edit [1, 2, 3] 2 [], Record, Edit [1, 2, 3, 4] 3 [], Record,
      Edit [1, 2, 3, 4, 5] 4 [], Record, Undo, Undo, Edit [1, 2, 9] 1 [''e1'']]"

text \<open>Twenty snapshots, the cursor on the last, and the fifth slide of six in focus.\<close>

definition full_calls :: "nat call list" where
  "full_calls = Init # replicate 19 Record @ [Edit [10, 11, 12, 13, 14, 15] 5 []]"

definition full_state :: "nat state" where
  "full_state = run fresh_state full_calls"

definition abcd_state :: "nat state" where
  "abcd_state =
     \<lparr>snapshotCursor = 1, snapshotLength = 4,
      db_snapshots =
        \<lparr>rows = [\<lparr>id_key = 1, index = 2, slides = [10, 11]\<rparr>,
                 \<lparr>id_key = 2, index = 3, slides = [1, 2, 3]\<rparr>,
                 \<lparr>id_key = 3, index = 4, slides = [1, 2, 3, 4]\<rparr>,
                 \<lparr>id_key = 4, index = 4, slides = [1, 2, 3, 4, 5]\<rparr>],
         next_id = 5\<rparr>,
      slidesStore_slideIndex = 1, slidesStore_slides = [1, 2, 9],
      mainStore_activeElementIdList = [''e1'']\<rparr>"

text \<open>The state right after the second snapshot of a session.\<close>

definition round_trip_calls :: "nat call list" where
  "round_trip_calls = [Init, Edit [10, 11, 12] 2 [''e1'']]"

definition round_trip_state :: "nat state" where
  "round_trip_state = run fresh_state (round_trip_calls @ [Record])"

text \<open>One snapshot taken on slide 1, then slide 2 in focus; and a call in which only the
  update of the table fails.\<close>

definition one_row_state :: "nat state" where
  "one_row_state = run fresh_state [Init, Edit [10, 11, 12] 2 []]"

definition update_fails :: faults where
  "update_fails = (\<lambda>op. op = Op_update)"

section \<open>The actions in terms of the auxiliary notions\<close>

lemma unDo_restore:
  "unDo fl s =
     (if snapshotCursor s \<le> 0 then (None, s)
      else (case table_toArray fl (db_snapshots s) of
              Inl e \<Rightarrow> (Some e, s)
            | Inr snapshots \<Rightarrow>
                (case js_nth snapshots (snapshotCursor s - 1) of
                   None \<Rightarrow> (Some TypeError, s)
                 | Some snapshot \<Rightarrow> (None, restore s (snapshotCursor s - 1) snapshot))))"
  by (simp add: unDo_def restore_def Let_def min_def split: sum.splits option.splits)

lemma reDo_restore:
  "reDo fl s =
     (if snapshotCursor s \<ge> snapshotLength s - 1 then (None, s)
      else (case table_toArray fl (db_snapshots s) of
              Inl e \<Rightarrow> (Some e, s)
            | Inr snapshots \<Rightarrow>
                (case js_nth snapshots (snapshotCursor s + 1) of
                   None \<Rightarrow> (Some TypeError, s)
                 | Some snapshot \<Rightarrow> (None, restore s (snapshotCursor s + 1) snapshot))))"
  by (simp add: reDo_def restore_def Let_def min_def split: sum.splits option.splits)

text \<open>
  The two array reads of \<open>addSnapshot\<close> that could yield \<open>undefined\<close> never do: the length
  computed there is at most the number of keys plus 1, and exceeds 20 only with at least 20
  keys.
\<close>

lemma evicted_key_exists:
  "int (length allKeys) - int (length needDeleteKeys) + 1 > 20 \<Longrightarrow> js_nth allKeys 0 \<noteq> None"
  by (auto simp: js_nth_def)

lemma patched_key_exists:
  "2 \<le> l \<Longrightarrow> l \<le> int (length allKeys) + 1 \<Longrightarrow> js_nth allKeys (l - 2) \<noteq> None"
  by (auto simp: js_nth_def)

section \<open>Lists of rows with distinct keys\<close>

lemma filter_drop_keys:
  "distinct (map f xs) \<Longrightarrow> filter (\<lambda>x. f x \<notin> set (drop k (map f xs))) xs = take k xs"
proof (induction xs arbitrary: k)
  case Nil
  then show ?case by simp
next
  case (Cons x xs)
  show ?case
  proof (cases k)
    case 0
    then show ?thesis by (simp add: filter_empty_conv)
  next
    case (Suc j)
    from Cons.prems have "f x \<notin> set (map f xs)" by simp
    then have "f x \<notin> set (drop j (map f xs))"
      using in_set_dropD by fastforce
    with Cons Suc show ?thesis by simp
  qed
qed

lemma filter_first_key:
  "distinct (map f xs) \<Longrightarrow> xs \<noteq> [] \<Longrightarrow> filter (\<lambda>x. f x \<notin> set [f (hd xs)]) xs = tl xs"
proof (cases xs)
  case Nil
  assume "xs \<noteq> []"
  with Nil show ?thesis by simp
next
  case (Cons y ys)
  assume "distinct (map f xs)"
  with Cons have "\<forall>x \<in> set ys. f x \<noteq> f y" by (auto simp: image_iff)
  then have "filter (\<lambda>x. f x \<noteq> f y) ys = ys" by (simp add: filter_id_conv)
  with Cons show ?thesis by simp
qed

lemma map_update_key:
  "distinct (map f xs) \<Longrightarrow> i < length xs \<Longrightarrow>
   map (\<lambda>x. if f x = f (xs ! i) then g x else x) xs = xs[i := g (xs ! i)]"
proof (rule nth_equalityI)
  show "length (map (\<lambda>x. if f x = f (xs ! i) then g x else x) xs) = length (xs[i := g (xs ! i)])"
    by simp
next
  fix j
  assume d: "distinct (map f xs)" and i: "i < length xs"
    and "j < length (map (\<lambda>x. if f x = f (xs ! i) then g x else x) xs)"
  then have j: "j < length xs" by simp
  from d i j have "f (xs ! j) = f (xs ! i) \<longleftrightarrow> j = i"
    using nth_eq_iff_index_eq [of "map f xs" j i] by simp
  with i j show "map (\<lambda>x. if f x = f (xs ! i) then g x else x) xs ! j = xs[i := g (xs ! i)] ! j"
    by (auto simp: nth_list_update)
qed

lemma keys_patched: "map id_key (patched rs i v) = map id_key rs"
proof -
  have "map id_key (patched rs i v) = (map id_key rs)[i := id_key (rs ! i)]"
    by (simp add: patched_def map_update)
  also have "\<dots> = map id_key (rs[i := rs ! i])"
    by (simp only: map_update)
  finally show ?thesis by simp
qed

lemma length_patched: "length (patched rs i v) = length rs"
  by (simp add: patched_def)

lemma table_wf_distinct: "table_wf t \<Longrightarrow> distinct (map id_key (rows t))"
  by (simp add: table_wf_def strict_sorted_iff)

lemma table_wf_fresh: "table_wf t \<Longrightarrow> next_id t \<notin> set (map id_key (rows t))"
  by (auto simp: table_wf_def list_all_iff)


lemma fresh_nth: "table_wf t \<Longrightarrow> i < length (rows t) \<Longrightarrow> next_id t \<noteq> id_key (rows t ! i)"
  by (auto simp: table_wf_def list_all_length)

lemma fresh_drop: "table_wf t \<Longrightarrow> next_id t \<notin> set (drop k (map id_key (rows t)))"
  using table_wf_fresh in_set_dropD by fastforce

lemma update_key_rows:
  assumes "table_wf t" and "i < length (rows t)"
  shows "map (\<lambda>r. if id_key r = id_key (rows t ! i) then r\<lparr>index := v\<rparr> else r) (rows t) =
         patched (rows t) i v"
  unfolding patched_def
  using map_update_key [OF table_wf_distinct [OF assms(1)] assms(2), of "\<lambda>r. r\<lparr>index := v\<rparr>"]
  by simp

lemma delete_after_rows:
  assumes "table_wf t"
  shows "filter (\<lambda>r. id_key r \<notin> set (drop k (map id_key (rows t)))) (patched (rows t) i v) =
         take k (patched (rows t) i v)"
  using filter_drop_keys [of id_key "patched (rows t) i v" k] table_wf_distinct [OF assms]
  by (simp add: keys_patched)

lemma delete_first_rows:
  assumes "table_wf t" and "rows t \<noteq> []"
  shows "filter (\<lambda>r. id_key r \<notin> set [id_key (rows t ! 0)]) (patched (rows t) i v) =
         tl (patched (rows t) i v)"
proof -
  have ne: "patched (rows t) i v \<noteq> []"
    using assms(2) by (simp add: patched_def)
  have "id_key (hd (patched (rows t) i v)) = hd (map id_key (patched (rows t) i v))"
    using ne by (simp add: hd_map)
  also have "\<dots> = id_key (rows t ! 0)"
    using assms(2) by (simp add: keys_patched hd_map hd_conv_nth)
  finally have h: "id_key (hd (patched (rows t) i v)) = id_key (rows t ! 0)" .
  have "distinct (map id_key (patched (rows t) i v))"
    by (simp add: keys_patched table_wf_distinct [OF assms(1)])
  from filter_first_key [OF this ne] h show ?thesis by simp
qed

section \<open>The table operations on a well-formed table\<close>

lemma js_nth_keys: "i < length rs \<Longrightarrow> js_nth (map id_key rs) (int i) = Some (id_key (rs ! i))"
  by (simp add: js_nth_def)

lemma table_keys_ok: "table_keys no_faults t = Inr (map id_key (rows t))"
  by (simp add: table_keys_def no_faults_def)

lemma table_add_ok:
  "table_add no_faults t i sl =
     Inr (t\<lparr>rows := rows t @ [\<lparr>id_key = next_id t, index = i, slides = sl\<rparr>],
            next_id := Suc (next_id t)\<rparr>)"
  by (simp add: table_add_def no_faults_def)

lemma table_update_ok:
  assumes "table_wf t" and "i < length (rows t)"
  shows "table_update no_faults
           (t\<lparr>rows := rows t @ [\<lparr>id_key = next_id t, index = w, slides = sl\<rparr>],
              next_id := Suc (next_id t)\<rparr>) (id_key (rows t ! i)) v =
         Inr (t\<lparr>rows := patched (rows t) i v @ [\<lparr>id_key = next_id t, index = w, slides = sl\<rparr>],
                next_id := Suc (next_id t)\<rparr>)"
  by (simp add: table_update_def no_faults_def fresh_nth [OF assms] update_key_rows [OF assms])

lemma table_bulkDelete_after:
  assumes "table_wf t"
  shows "table_bulkDelete no_faults
           (t\<lparr>rows := patched (rows t) i v @ [\<lparr>id_key = next_id t, index = w, slides = sl\<rparr>],
              next_id := Suc (next_id t)\<rparr>) (drop k (map id_key (rows t))) =
         Inr (t\<lparr>rows := take k (patched (rows t) i v) @
                          [\<lparr>id_key = next_id t, index = w, slides = sl\<rparr>],
                next_id := Suc (next_id t)\<rparr>)"
  by (simp add: table_bulkDelete_def no_faults_def fresh_drop [OF assms]
      delete_after_rows [OF assms])

lemma table_bulkDelete_none:
  "table_bulkDelete no_faults t [] = Inr t"
  by (simp add: table_bulkDelete_def no_faults_def)

lemma table_bulkDelete_first:
  assumes "table_wf t" and "rows t \<noteq> []"
  shows "table_bulkDelete no_faults
           (t\<lparr>rows := patched (rows t) i v @ [\<lparr>id_key = next_id t, index = w, slides = sl\<rparr>],
              next_id := Suc (next_id t)\<rparr>) ([] @ [id_key (rows t ! 0)]) =
         Inr (t\<lparr>rows := tl (patched (rows t) i v) @
                          [\<lparr>id_key = next_id t, index = w, slides = sl\<rparr>],
                next_id := Suc (next_id t)\<rparr>)"
proof -
  have "0 < length (rows t)" using assms(2) by simp
  from fresh_nth [OF assms(1) this] show ?thesis
    using delete_first_rows [OF assms, of i v]
    by (simp add: table_bulkDelete_def no_faults_def)
qed

section \<open>Closed forms of \<open>addSnapshot\<close> when no table operation fails\<close>

text \<open>
  Three cases cover every state reached from the uninitialized one: the cursor is before the
  last key (truncation), the cursor is not and fewer than 20 rows exist (plain append), the
  cursor is not and at least 20 rows exist (eviction of the oldest row).
\<close>

lemma addSnapshot_truncate:
  assumes wf: "table_wf (db_snapshots s)"
    and c0: "0 \<le> snapshotCursor s"
    and c1: "snapshotCursor s < int (length (rows (db_snapshots s))) - 1"
    and c2: "snapshotCursor s \<le> 18"
  shows "addSnapshot no_faults s =
    (None, s\<lparr>db_snapshots := (db_snapshots s)
                \<lparr>rows := take (Suc (nat (snapshotCursor s)))
                           (patched (rows (db_snapshots s)) (nat (snapshotCursor s))
                              (slidesStore_slideIndex s)) @
                         [\<lparr>id_key = next_id (db_snapshots s), index = slidesStore_slideIndex s,
                           slides = slidesStore_slides s\<rparr>],
                  next_id := Suc (next_id (db_snapshots s))\<rparr>,
              snapshotCursor := snapshotCursor s + 1,
              snapshotLength := snapshotCursor s + 2\<rparr>)"
proof -
  let ?t = "db_snapshots s"
  let ?c = "nat (snapshotCursor s)"
  let ?ks = "map id_key (rows ?t)"
  have cn: "?c < length (rows ?t)"
    using c0 c1 by auto
  have g: "snapshotCursor s \<ge> 0 \<and> snapshotCursor s < int (length ?ks) - 1"
    using c0 c1 by simp
  have sl: "js_slice ?ks (snapshotCursor s + 1) = drop (Suc ?c) ?ks"
    using c0 by (simp add: js_slice_def nat_add_distrib)
  have len: "int (length ?ks) - int (length (drop (Suc ?c) ?ks)) + 1 = snapshotCursor s + 2"
    using c0 c1 by simp
  have lim: "\<not> snapshotCursor s + 2 > 20" "snapshotCursor s + 2 \<ge> 2"
    using c0 c2 by auto
  have e: "snapshotCursor s + 2 - 2 = int ?c"
    using c0 by simp
  have nth: "js_nth ?ks (snapshotCursor s + 2 - 2) = Some (id_key (rows ?t ! ?c))"
    unfolding e by (rule js_nth_keys [OF cn])
  show ?thesis
    unfolding addSnapshot_def table_keys_ok sum.case Let_def if_P [OF g] sl table_add_ok len
      if_not_P [OF lim(1)] if_P [OF lim(2)] nth option.case table_update_ok [OF wf cn]
      table_bulkDelete_after [OF wf]
    by simp
qed

lemma addSnapshot_append:
  assumes wf: "table_wf (db_snapshots s)"
    and c: "\<not> (0 \<le> snapshotCursor s \<and> snapshotCursor s < int (length (rows (db_snapshots s))) - 1)"
    and n: "length (rows (db_snapshots s)) < 20"
  shows "addSnapshot no_faults s =
    (None, s\<lparr>db_snapshots := (db_snapshots s)
                \<lparr>rows := patched (rows (db_snapshots s)) (length (rows (db_snapshots s)) - 1)
                           (slidesStore_slideIndex s) @
                         [\<lparr>id_key = next_id (db_snapshots s), index = slidesStore_slideIndex s,
                           slides = slidesStore_slides s\<rparr>],
                  next_id := Suc (next_id (db_snapshots s))\<rparr>,
              snapshotCursor := int (length (rows (db_snapshots s))),
              snapshotLength := int (length (rows (db_snapshots s))) + 1\<rparr>)"
proof -
  let ?t = "db_snapshots s"
  let ?n = "length (rows ?t)"
  let ?ks = "map id_key (rows ?t)"
  have g: "\<not> (snapshotCursor s \<ge> 0 \<and> snapshotCursor s < int (length ?ks) - 1)"
    using c by simp
  have len: "int (length ?ks) - int (length ([]::nat list)) + 1 = int ?n + 1"
    by simp
  have lim: "\<not> int ?n + 1 > 20"
    using n by simp
  show ?thesis
  proof (cases "?n = 0")
    case True
    then have small: "\<not> int ?n + 1 \<ge> 2" by simp
    from True have "rows ?t = []" by simp
    then have p: "patched (rows ?t) (?n - 1) (slidesStore_slideIndex s) = rows ?t"
      by (simp add: patched_def)
    show ?thesis
      unfolding addSnapshot_def table_keys_ok sum.case Let_def if_not_P [OF g] table_add_ok len
        if_not_P [OF lim] if_not_P [OF small] table_bulkDelete_none p
      using True by simp
  next
    case False
    then have big: "int ?n + 1 \<ge> 2" and last: "?n - 1 < ?n" by linarith+
    have e: "int ?n + 1 - 2 = int (?n - 1)"
      using last by linarith
    have nth: "js_nth ?ks (int ?n + 1 - 2) = Some (id_key (rows ?t ! (?n - 1)))"
      unfolding e by (rule js_nth_keys [OF last])
    show ?thesis
      unfolding addSnapshot_def table_keys_ok sum.case Let_def if_not_P [OF g] table_add_ok len
        if_not_P [OF lim] if_P [OF big] nth option.case table_update_ok [OF wf last]
        table_bulkDelete_none
      by simp
  qed
qed

lemma addSnapshot_evict:
  assumes wf: "table_wf (db_snapshots s)"
    and c: "\<not> (0 \<le> snapshotCursor s \<and> snapshotCursor s < int (length (rows (db_snapshots s))) - 1)"
    and n: "length (rows (db_snapshots s)) \<ge> 20"
  shows "addSnapshot no_faults s =
    (None, s\<lparr>db_snapshots := (db_snapshots s)
                \<lparr>rows := tl (patched (rows (db_snapshots s)) (length (rows (db_snapshots s)) - 2)
                           (slidesStore_slideIndex s)) @
                         [\<lparr>id_key = next_id (db_snapshots s), index = slidesStore_slideIndex s,
                           slides = slidesStore_slides s\<rparr>],
                  next_id := Suc (next_id (db_snapshots s))\<rparr>,
              snapshotCursor := int (length (rows (db_snapshots s))) - 1,
              snapshotLength := int (length (rows (db_snapshots s)))\<rparr>)"
proof -
  let ?t = "db_snapshots s"
  let ?n = "length (rows ?t)"
  let ?ks = "map id_key (rows ?t)"
  have g: "\<not> (snapshotCursor s \<ge> 0 \<and> snapshotCursor s < int (length ?ks) - 1)"
    using c by simp
  have len: "int (length ?ks) - int (length ([]::nat list)) + 1 = int ?n + 1"
    by simp
  have lim: "int ?n + 1 > 20" and big: "int ?n + 1 - 1 \<ge> 2" and i: "?n - 2 < ?n"
    using n by auto
  have ne: "rows ?t \<noteq> []"
    using n by (cases "rows ?t") simp_all
  have first: "js_nth ?ks 0 = Some (id_key (rows ?t ! 0))"
    using ne by (simp add: js_nth_def)
  have e: "int ?n + 1 - 1 - 2 = int (?n - 2)"
    using n by linarith
  have nth: "js_nth ?ks (int ?n + 1 - 1 - 2) = Some (id_key (rows ?t ! (?n - 2)))"
    unfolding e by (rule js_nth_keys [OF i])
  show ?thesis
    unfolding addSnapshot_def table_keys_ok sum.case Let_def if_not_P [OF g] table_add_ok len
      if_P [OF lim] first if_P [OF big] nth option.case table_update_ok [OF wf i]
      table_bulkDelete_first [OF wf ne]
    by simp
qed

section \<open>Invariants along sequences of calls\<close>

lemma table_wf_extend:
  assumes "table_wf t" and "sorted_wrt (<) (map id_key xs)"
    and "set (map id_key xs) \<subseteq> set (map id_key (rows t))"
  shows "table_wf (t\<lparr>rows := xs @ [\<lparr>id_key = next_id t, index = i, slides = sl\<rparr>],
                     next_id := Suc (next_id t)\<rparr>)"
proof -
  have below: "\<forall>k \<in> set (map id_key (rows t)). k < next_id t"
    using assms(1) by (auto simp: table_wf_def list_all_iff)
  with assms(3) have xs: "\<forall>k \<in> set (map id_key xs). k < next_id t"
    by blast
  then have "sorted_wrt (<) (map id_key xs @ [next_id t])"
    using assms(2) by (simp add: sorted_wrt_append)
  moreover have "list_all (\<lambda>r. id_key r < Suc (next_id t)) xs"
    using xs by (auto simp: list_all_iff less_Suc_eq)
  ultimately show ?thesis
    by (simp add: table_wf_def)
qed

lemma table_wf_sorted: "table_wf t \<Longrightarrow> sorted_wrt (<) (map id_key (rows t))"
  by (simp add: table_wf_def)

lemma table_wf_take:
  assumes "table_wf t"
  shows "table_wf (t\<lparr>rows := take k (patched (rows t) j v) @
                              [\<lparr>id_key = next_id t, index = i, slides = sl\<rparr>],
                     next_id := Suc (next_id t)\<rparr>)"
proof (rule table_wf_extend [OF assms])
  have m: "map id_key (take k (patched (rows t) j v)) = take k (map id_key (rows t))"
    by (simp only: take_map [symmetric] keys_patched)
  show "sorted_wrt (<) (map id_key (take k (patched (rows t) j v)))"
    unfolding m by (rule sorted_wrt_take [OF table_wf_sorted [OF assms]])
  show "set (map id_key (take k (patched (rows t) j v))) \<subseteq> set (map id_key (rows t))"
    unfolding m by (rule set_take_subset)
qed

lemma table_wf_whole:
  assumes "table_wf t"
  shows "table_wf (t\<lparr>rows := patched (rows t) j v @
                              [\<lparr>id_key = next_id t, index = i, slides = sl\<rparr>],
                     next_id := Suc (next_id t)\<rparr>)"
  by (rule table_wf_extend [OF assms]) (simp_all add: keys_patched table_wf_sorted [OF assms])

lemma table_wf_tl:
  assumes "table_wf t"
  shows "table_wf (t\<lparr>rows := tl (patched (rows t) j v) @
                              [\<lparr>id_key = next_id t, index = i, slides = sl\<rparr>],
                     next_id := Suc (next_id t)\<rparr>)"
proof (rule table_wf_extend [OF assms])
  have m: "map id_key (tl (patched (rows t) j v)) = drop 1 (map id_key (rows t))"
    by (simp add: map_tl keys_patched drop_Suc)
  show "sorted_wrt (<) (map id_key (tl (patched (rows t) j v)))"
    unfolding m by (rule sorted_wrt_drop [OF table_wf_sorted [OF assms]])
  show "set (map id_key (tl (patched (rows t) j v))) \<subseteq> set (map id_key (rows t))"
    unfolding m by (rule set_drop_subset)
qed

lemma uninitialized_no_rows: "uninitialized s \<Longrightarrow> rows (db_snapshots s) = []"
  by (simp add: uninitialized_def)

lemma addSnapshot_recorded:
  assumes "hist_inv s"
  shows "fst (addSnapshot no_faults s) = None \<and> recorded (snd (addSnapshot no_faults s)) \<and>
         slidesStore_slides (snd (addSnapshot no_faults s)) = slidesStore_slides s \<and>
         slidesStore_slideIndex (snd (addSnapshot no_faults s)) = slidesStore_slideIndex s \<and>
         mainStore_activeElementIdList (snd (addSnapshot no_faults s)) =
           mainStore_activeElementIdList s"
proof -
  let ?t = "db_snapshots s"
  let ?n = "length (rows ?t)"
  let ?c = "snapshotCursor s"
  from assms have wf: "table_wf ?t"
    by (simp add: hist_inv_def)
  consider (trunc) "0 \<le> ?c" "?c < int ?n - 1" "?c \<le> 18"
    | (app) "\<not> (0 \<le> ?c \<and> ?c < int ?n - 1)" "?n < 20"
    | (evict) "\<not> (0 \<le> ?c \<and> ?c < int ?n - 1)" "?n = 20"
    using assms unfolding hist_inv_def uninitialized_def by fastforce
  then show ?thesis
  proof cases
    case trunc
    then have "Suc (nat ?c) \<le> ?n" "int (Suc (nat ?c)) = ?c + 1" by linarith+
    then show ?thesis
      using trunc table_wf_take [OF wf]
      by (simp add: addSnapshot_truncate [OF wf trunc] recorded_def length_patched min_def)
  next
    case app
    then show ?thesis
      using table_wf_whole [OF wf]
      by (simp add: addSnapshot_append [OF wf app] recorded_def length_patched)
  next
    case evict
    then have n: "?n \<ge> 20" by simp
    show ?thesis
      using evict(2) table_wf_tl [OF wf]
      by (simp add: addSnapshot_evict [OF wf evict(1) n] recorded_def length_patched)
  qed
qed

lemma recorded_synced: "recorded s \<Longrightarrow> synced s"
  unfolding recorded_def synced_def by arith

lemma synced_hist_inv: "synced s \<Longrightarrow> hist_inv s"
  by (simp add: synced_def hist_inv_def)


lemma uninitialized_hist_inv: "uninitialized s \<Longrightarrow> hist_inv s"
  by (simp add: hist_inv_def uninitialized_def table_wf_def)

lemma unDo_shape:
  "snd (unDo fl s) = s \<or>
   0 < snapshotCursor s \<and> (\<exists>r. snd (unDo fl s) = restore s (snapshotCursor s - 1) r)"
  by (auto simp: unDo_restore Let_def split: sum.splits option.splits)

lemma reDo_shape:
  "snd (reDo fl s) = s \<or>
   snapshotCursor s < snapshotLength s - 1 \<and>
   (\<exists>r. snd (reDo fl s) = restore s (snapshotCursor s + 1) r)"
  by (auto simp: reDo_restore Let_def split: sum.splits option.splits)

lemma restore_history:
  "snapshotCursor (restore s c r) = c"
  "snapshotLength (restore s c r) = snapshotLength s"
  "db_snapshots (restore s c r) = db_snapshots s"
  by (simp_all add: restore_def Let_def)

lemma initSnapshotDatabase_synced:
  assumes "uninitialized s"
  shows "synced (snd (initSnapshotDatabase no_faults s))"
  using assms
  by (simp add: initSnapshotDatabase_def table_add_ok synced_def uninitialized_def table_wf_def)

lemma initSnapshotDatabase_hist_inv:
  assumes "hist_inv s"
  shows "hist_inv (snd (initSnapshotDatabase no_faults s))"
proof -
  from assms have wf: "table_wf (db_snapshots s)"
    by (simp add: hist_inv_def)
  have "table_wf ((db_snapshots s)\<lparr>rows := rows (db_snapshots s) @
            [\<lparr>id_key = next_id (db_snapshots s), index = slidesStore_slideIndex s,
              slides = slidesStore_slides s\<rparr>],
          next_id := Suc (next_id (db_snapshots s))\<rparr>)"
    by (rule table_wf_extend [OF wf]) (simp_all add: table_wf_sorted [OF wf])
  then show ?thesis
    by (simp add: initSnapshotDatabase_def table_add_ok hist_inv_def uninitialized_def)
qed

lemma unDo_synced: "synced s \<Longrightarrow> synced (snd (unDo fl s))"
  using unDo_shape [of fl s] by (auto simp: synced_def restore_history)

lemma reDo_synced: "synced s \<Longrightarrow> synced (snd (reDo fl s))"
  using reDo_shape [of fl s] by (auto simp: synced_def restore_history)

lemma unDo_hist_inv: "hist_inv s \<Longrightarrow> hist_inv (snd (unDo fl s))"
  using unDo_shape [of fl s] by (auto simp: hist_inv_def uninitialized_def restore_history)

lemma reDo_hist_inv: "hist_inv s \<Longrightarrow> hist_inv (snd (reDo fl s))"
  using reDo_shape [of fl s] by (auto simp: hist_inv_def uninitialized_def restore_history)

lemma unDo_uninitialized: "uninitialized s \<Longrightarrow> snd (unDo fl s) = s"
  by (simp add: unDo_restore uninitialized_def)

lemma reDo_uninitialized: "uninitialized s \<Longrightarrow> snd (reDo fl s) = s"
  by (simp add: reDo_restore uninitialized_def)

lemma addSnapshot_synced: "hist_inv s \<Longrightarrow> synced (snd (addSnapshot no_faults s))"
  using addSnapshot_recorded recorded_synced by blast

lemma step_hist_inv: "hist_inv s \<Longrightarrow> hist_inv (step c s)"
proof (cases c)
  case Init
  assume "hist_inv s"
  with Init show ?thesis by (simp add: initSnapshotDatabase_hist_inv)
next
  case Record
  assume "hist_inv s"
  with Record show ?thesis by (simp add: addSnapshot_synced synced_hist_inv)
next
  case Undo
  assume "hist_inv s"
  with Undo show ?thesis by (simp add: unDo_hist_inv)
next
  case Redo
  assume "hist_inv s"
  with Redo show ?thesis by (simp add: reDo_hist_inv)
next
  case (Edit sl i sel)
  assume "hist_inv s"
  with Edit show ?thesis by (simp add: hist_inv_def uninitialized_def)
qed

lemma run_hist_inv: "hist_inv s \<Longrightarrow> hist_inv (run s cs)"
  by (induction cs arbitrary: s) (simp_all add: step_hist_inv)

lemma run_append: "run s (cs @ ds) = run (run s cs) ds"
  by (induction cs arbitrary: s) simp_all

lemma run_snoc: "run s (cs @ [c]) = step c (run s cs)"
  by (simp add: run_append)

lemma run_synced:
  assumes "init_on_empty st cs" and "if st then synced s else uninitialized s"
  shows "if st \<or> Init \<in> set cs \<or> Record \<in> set cs
         then synced (run s cs) else uninitialized (run s cs)"
  using assms
proof (induction cs arbitrary: s st)
  case Nil
  then show ?case by simp
next
  case (Cons c cs)
  show ?case
  proof (cases c)
    case Init
    with Cons.prems have st: "\<not> st" and rest: "init_on_empty True cs" by simp_all
    with Cons.prems(2) have "if True then synced (step Init s) else uninitialized (step Init s)"
      by (simp add: initSnapshotDatabase_synced)
    from Cons.IH [OF rest this] Init show ?thesis by (simp cong: if_cong)
  next
    case Record
    with Cons.prems have rest: "init_on_empty True cs" by simp
    from Cons.prems(2) have "hist_inv s"
      by (auto simp: synced_hist_inv uninitialized_hist_inv split: if_splits)
    then have "if True then synced (step Record s) else uninitialized (step Record s)"
      by (simp add: addSnapshot_synced)
    from Cons.IH [OF rest this] Record show ?thesis by (simp cong: if_cong)
  next
    case Undo
    with Cons.prems have rest: "init_on_empty st cs" by simp
    from Cons.prems(2) have "if st then synced (step Undo s) else uninitialized (step Undo s)"
      by (auto simp: unDo_synced unDo_uninitialized split: if_splits)
    from Cons.IH [OF rest this] Undo show ?thesis by (simp cong: if_cong)
  next
    case Redo
    with Cons.prems have rest: "init_on_empty st cs" by simp
    from Cons.prems(2) have "if st then synced (step Redo s) else uninitialized (step Redo s)"
      by (auto simp: reDo_synced reDo_uninitialized split: if_splits)
    from Cons.IH [OF rest this] Redo show ?thesis by (simp cong: if_cong)
  next
    case (Edit sl i sel)
    with Cons.prems have rest: "init_on_empty st cs" by simp
    from Cons.prems(2)
    have "if st then synced (step (Edit sl i sel) s) else uninitialized (step (Edit sl i sel) s)"
      by (auto simp: synced_def uninitialized_def split: if_splits)
    from Cons.IH [OF rest this] Edit show ?thesis by (simp cong: if_cong)
  qed
qed

section \<open>Further facts used by the properties\<close>

lemma take_Suc_patched:
  "i < length rs \<Longrightarrow> take (Suc i) (patched rs i v) = take i rs @ [(rs ! i)\<lparr>index := v\<rparr>]"
  by (simp add: patched_def take_Suc_conv_app_nth)

lemma removed_keys_after:
  assumes "distinct ks" and "k \<notin> set ks"
  shows "set ks - set (take n ks @ [k]) = set (drop n ks)"
proof -
  have "set (take n ks) \<inter> set (drop n ks) = {}"
    by (rule set_take_disj_set_drop_if_distinct [OF assms(1)]) simp
  moreover have "set (take n ks) \<union> set (drop n ks) = set ks"
    by (metis append_take_drop_id set_append)
  moreover have "k \<notin> set (drop n ks)"
    using assms(2) in_set_dropD by fastforce
  ultimately show ?thesis by auto
qed

lemma slides_patched: "map slides (patched rs i v) = map slides rs"
proof -
  have "map slides (patched rs i v) = (map slides rs)[i := slides (rs ! i)]"
    by (simp add: patched_def map_update)
  also have "\<dots> = map slides (rs[i := rs ! i])"
    by (simp only: map_update)
  finally show ?thesis by simp
qed

lemma removed_first_key:
  assumes "distinct ks" and "k \<notin> set ks" and "ks \<noteq> []"
  shows "set ks - set (tl ks @ [k]) = {hd ks}"
  using assms by (cases ks) auto

text \<open>
  Where \<open>addSnapshot\<close> patches when it does not evict: the result is the old rows before the
  second-to-newest position untouched, the row at that position with its \<open>index\<close> set to the
  current slide index, and the new row.
\<close>

lemma patched_last_split:
  "i < length rs \<Longrightarrow> Suc i = length rs \<Longrightarrow>
   patched rs i v = take i rs @ [(rs ! i)\<lparr>index := v\<rparr>]"
  by (simp add: patched_def upd_conv_take_nth_drop)

lemma addSnapshot_patches_second_newest:
  assumes "hist_inv s"
    and "\<not> (length (rows (db_snapshots s)) = 20 \<and> snapshotCursor s = 19)"
    and "l = snapshotLength (snd (addSnapshot no_faults s))" and "2 \<le> l"
  shows "rows (db_snapshots (snd (addSnapshot no_faults s))) =
           take (nat (l - 2)) (rows (db_snapshots s)) @
           [(rows (db_snapshots s) ! nat (l - 2))\<lparr>index := slidesStore_slideIndex s\<rparr>,
            \<lparr>id_key = next_id (db_snapshots s), index = slidesStore_slideIndex s,
              slides = slidesStore_slides s\<rparr>]"
proof -
  let ?t = "db_snapshots s"
  let ?n = "length (rows ?t)"
  let ?c = "snapshotCursor s"
  from assms(1) have wf: "table_wf ?t"
    by (simp add: hist_inv_def)
  consider (trunc) "0 \<le> ?c" "?c < int ?n - 1" "?c \<le> 18"
    | (app) "\<not> (0 \<le> ?c \<and> ?c < int ?n - 1)" "?n < 20"
    using assms(1,2) unfolding hist_inv_def uninitialized_def by fastforce
  then show ?thesis
  proof cases
    case trunc
    then have cn: "nat ?c < ?n" by linarith
    from trunc have l: "l = ?c + 2"
      using assms(3) by (simp add: addSnapshot_truncate [OF wf trunc])
    show ?thesis
      unfolding l by (simp add: addSnapshot_truncate [OF wf trunc] take_Suc_patched [OF cn])
  next
    case app
    have l: "l = int ?n + 1"
      using assms(3) by (simp add: addSnapshot_append [OF wf app])
    with assms(4) have n: "?n - 1 < ?n" "Suc (?n - 1) = ?n" "nat (l - 2) = ?n - 1"
      by linarith+
    have closed: "rows (db_snapshots (snd (addSnapshot no_faults s))) =
        patched (rows ?t) (?n - 1) (slidesStore_slideIndex s) @
        [\<lparr>id_key = next_id ?t, index = slidesStore_slideIndex s,
          slides = slidesStore_slides s\<rparr>]"
      by (simp add: addSnapshot_append [OF wf app])
    show ?thesis
      unfolding n(3) closed patched_last_split [OF n(1,2)] by simp
  qed
qed

lemma abcd_reached: "run fresh_state abcd_calls = abcd_state"
  unfolding abcd_calls_def abcd_state_def by code_simp

lemma recorded_round_trip:
  assumes "recorded s" and "u = snd (unDo no_faults s)" and "r = snd (reDo no_faults u)"
  shows "fst (unDo no_faults s) = None \<and> fst (reDo no_faults u) = None \<and>
         slidesStore_slides r = slidesStore_slides s \<and>
         snapshotCursor r = snapshotCursor s \<and>
         snapshotLength r = snapshotLength s \<and>
         db_snapshots r = db_snapshots s \<and>
         slidesStore_slideIndex r =
           (if snapshotCursor s = 0 then slidesStore_slideIndex s
            else min (slidesStore_slideIndex s) (int (length (slidesStore_slides s)) - 1)) \<and>
         mainStore_activeElementIdList r =
           (if snapshotCursor s = 0 then mainStore_activeElementIdList s else [])"
proof (cases "snapshotCursor s = 0")
  case True
  with assms(1) have "snapshotLength s = 1"
    by (simp add: recorded_def)
  with True have "unDo no_faults s = (None, s)" "reDo no_faults s = (None, s)"
    by (simp_all add: unDo_restore reDo_restore)
  with True assms(2,3) show ?thesis by simp
next
  case False
  let ?rs = "rows (db_snapshots s)"
  let ?c = "snapshotCursor s"
  from assms(1) False have c: "0 < ?c" "?c = int (length ?rs) - 1" "snapshotLength s = int (length ?rs)"
    by (auto simp: recorded_def)
  then have ne: "?rs \<noteq> []" by auto
  from c have nc: "nat ?c = length ?rs - 1" by linarith
  from assms(1) have doc: "slides (last ?rs) = slidesStore_slides s"
    "index (last ?rs) = slidesStore_slideIndex s"
    by (simp_all add: recorded_def)
  have before: "js_nth ?rs (?c - 1) = Some (?rs ! nat (?c - 1))"
    using c by (simp add: js_nth_def)
  have at: "js_nth ?rs (?c - 1 + 1) = Some (last ?rs)"
    using c nc ne by (simp add: js_nth_def last_conv_nth)
  have undo: "unDo no_faults s = (None, restore s (?c - 1) (?rs ! nat (?c - 1)))"
    using c(1) before by (simp add: unDo_restore table_toArray_def no_faults_def Let_def)
  then have u: "u = restore s (?c - 1) (?rs ! nat (?c - 1))"
    using assms(2) by simp
  have redo: "reDo no_faults u = (None, restore u ?c (last ?rs))"
    unfolding u using c at
    by (simp add: reDo_restore table_toArray_def no_faults_def restore_history Let_def)
  then have r: "r = restore u ?c (last ?rs)"
    using assms(3) by simp
  show ?thesis
    unfolding r using False undo redo doc
    by (simp add: restore_def u min_def)
qed

text \<open>
  The awaited table operations: when one of them fails, the action is rejected and the cursor
  and the length stay as they were.
\<close>

lemma initSnapshotDatabase_rejected:
  "fl Op_add \<Longrightarrow> initSnapshotDatabase fl s = (Some (LogFailure Op_add), s)"
  by (simp add: initSnapshotDatabase_def table_add_def)

lemma unDo_rejected:
  "fl Op_toArray \<Longrightarrow> 0 < snapshotCursor s \<Longrightarrow> unDo fl s = (Some (LogFailure Op_toArray), s)"
  by (simp add: unDo_restore table_toArray_def)

lemma reDo_rejected:
  "fl Op_toArray \<Longrightarrow> snapshotCursor s < snapshotLength s - 1 \<Longrightarrow>
   reDo fl s = (Some (LogFailure Op_toArray), s)"
  by (simp add: reDo_restore table_toArray_def)

lemma addSnapshot_rejected:
  "fl Op_keys \<or> fl Op_add \<or> fl Op_bulkDelete \<Longrightarrow> fst (addSnapshot fl s) \<noteq> None"
  by (auto simp: addSnapshot_def table_keys_def table_add_def table_bulkDelete_def Let_def
      split: sum.splits)

lemma addSnapshot_rejected_keeps_cursor:
  "fst (addSnapshot fl s) \<noteq> None \<Longrightarrow>
   snapshotCursor (snd (addSnapshot fl s)) = snapshotCursor s \<and>
   snapshotLength (snd (addSnapshot fl s)) = snapshotLength s"
  by (auto simp: addSnapshot_def table_keys_def table_add_def table_bulkDelete_def Let_def
      split: sum.splits if_splits)

text \<open>A failure of the update alone is never seen by the caller.\<close>

lemma addSnapshot_update_failure_unseen:
  "\<not> fl Op_keys \<Longrightarrow> \<not> fl Op_add \<Longrightarrow> \<not> fl Op_bulkDelete \<Longrightarrow> fst (addSnapshot fl s) = None"
  by (simp add: addSnapshot_def table_keys_def table_add_def table_bulkDelete_def Let_def)

section \<open>Properties of the actions\<close>

text \<open>
  C1. In \<open>addSnapshot\<close>, whenever the resulting length is at least 2, the \<open>index\<close> field of
  the second-to-newest surviving row is set to the current slide index and no other row's
  \<open>index\<close> changes, also when the oldest row is evicted in the same call.

  The code does not do this when it evicts. In the state reached by \<open>initSnapshotDatabase\<close>,
  19 calls of \<open>addSnapshot\<close> and a move to slide 5, the table holds the ids 1 to 20, each with
  index 1, and the cursor is 19. \<open>addSnapshot\<close> then leaves the ids 2 to 21: the
  second-to-newest row (id 20) still has index 1, and the row before it (id 19) has been set
  to 5. The source updates \<open>allKeys[snapshotLength - 2]\<close> after decrementing
  \<open>snapshotLength\<close> for the eviction, while \<open>allKeys\<close> still starts with the evicted key.
\<close>

theorem addSnapshot_patch_after_eviction:
  "snapshotCursor full_state = 19 \<and> snapshotLength full_state = 20 \<and>
   slidesStore_slideIndex full_state = 5 \<and>
   map id_key (rows (db_snapshots full_state)) =
     [1, 2, 3, 4, 5, 6, 7, 8, 9, 10, 11, 12, 13, 14, 15, 16, 17, 18, 19, 20] \<and>
   map index (rows (db_snapshots full_state)) =
     [1, 1, 1, 1, 1, 1, 1, 1, 1, 1, 1, 1, 1, 1, 1, 1, 1, 1, 1, 1] \<and>
   fst (addSnapshot no_faults full_state) = None \<and>
   snapshotLength (snd (addSnapshot no_faults full_state)) = 20 \<and>
   map id_key (rows (db_snapshots (snd (addSnapshot no_faults full_state)))) =
     [2, 3, 4, 5, 6, 7, 8, 9, 10, 11, 12, 13, 14, 15, 16, 17, 18, 19, 20, 21] \<and>
   map index (rows (db_snapshots (snd (addSnapshot no_faults full_state)))) =
     [1, 1, 1, 1, 1, 1, 1, 1, 1, 1, 1, 1, 1, 1, 1, 1, 1, 5, 1, 5]"
proof -
  have "snapshotCursor full_state = 19" "snapshotLength full_state = 20"
    "slidesStore_slideIndex full_state = 5"
    unfolding full_state_def full_calls_def by code_simp+
  moreover have "map id_key (rows (db_snapshots full_state)) =
     [1, 2, 3, 4, 5, 6, 7, 8, 9, 10, 11, 12, 13, 14, 15, 16, 17, 18, 19, 20]"
    unfolding full_state_def full_calls_def by code_simp
  moreover have "map index (rows (db_snapshots full_state)) =
     [1, 1, 1, 1, 1, 1, 1, 1, 1, 1, 1, 1, 1, 1, 1, 1, 1, 1, 1, 1]"
    unfolding full_state_def full_calls_def by code_simp
  moreover have "fst (addSnapshot no_faults full_state) = None"
    "snapshotLength (snd (addSnapshot no_faults full_state)) = 20"
    unfolding full_state_def full_calls_def by code_simp+
  moreover have "map id_key (rows (db_snapshots (snd (addSnapshot no_faults full_state)))) =
     [2, 3, 4, 5, 6, 7, 8, 9, 10, 11, 12, 13, 14, 15, 16, 17, 18, 19, 20, 21]"
    unfolding full_state_def full_calls_def by code_simp
  moreover have "map index (rows (db_snapshots (snd (addSnapshot no_faults full_state)))) =
     [1, 1, 1, 1, 1, 1, 1, 1, 1, 1, 1, 1, 1, 1, 1, 1, 1, 5, 1, 5]"
    unfolding full_state_def full_calls_def by code_simp
  ultimately show ?thesis by blast
qed

text \<open>
  C2, as stated: after every finite sequence of init/record/undo/redo calls from the
  uninitialized state, the length equals the number of rows an ordered scan of the table
  returns. This fails when \<open>initSnapshotDatabase\<close> is called on a table that already has a
  row: after two calls the scan returns two rows and the length is 1.
\<close>

theorem history_out_of_step_after_second_init:
  "uninitialized fresh_state \<and>
   snapshotLength (run fresh_state [Init, Init]) = 1 \<and>
   table_toArray no_faults (db_snapshots (run fresh_state [Init, Init])) =
     Inr [\<lparr>id_key = 1, index = 1, slides = [10, 11]\<rparr>,
          \<lparr>id_key = 2, index = 1, slides = [10, 11]\<rparr>]"
  by (simp add: uninitialized_def fresh_state_def initSnapshotDatabase_def table_add_def
      table_toArray_def no_faults_def)

text \<open>
  C2, amended. For every finite sequence of calls (with any edits of the document between
  them) from the uninitialized state in which \<open>initSnapshotDatabase\<close> is called only while the
  table is still empty, after the sequence the length equals the number of rows an ordered
  scan of the table returns, and \<open>0 \<le> cursor \<le> length - 1\<close> holds, or the cursor is -1 and the
  length 0 when \<open>initSnapshotDatabase\<close> was never called.
\<close>

theorem history_in_step_with_table:
  assumes "uninitialized s" and "init_on_empty False cs"
  shows "(\<exists>xs. table_toArray no_faults (db_snapshots (run s cs)) = Inr xs \<and>
               snapshotLength (run s cs) = int (length xs)) \<and>
         (0 \<le> snapshotCursor (run s cs) \<and>
            snapshotCursor (run s cs) \<le> snapshotLength (run s cs) - 1 \<or>
          snapshotCursor (run s cs) = - 1 \<and> snapshotLength (run s cs) = 0 \<and> Init \<notin> set cs)"
proof -
  from run_synced [OF assms(2), of s] assms(1)
  have "if Init \<in> set cs \<or> Record \<in> set cs then synced (run s cs) else uninitialized (run s cs)"
    by simp
  then show ?thesis
    by (auto simp: synced_def uninitialized_def table_toArray_def no_faults_def split: if_splits)
qed

theorem history_in_step_with_table_witness:
  "uninitialized fresh_state \<and> init_on_empty False session_calls \<and>
   (\<exists>xs. table_toArray no_faults (db_snapshots (run fresh_state session_calls)) = Inr xs \<and>
         snapshotLength (run fresh_state session_calls) = int (length xs)) \<and>
   0 \<le> snapshotCursor (run fresh_state session_calls) \<and>
   snapshotCursor (run fresh_state session_calls) \<le> snapshotLength (run fresh_state session_calls) - 1"
proof -
  have u: "uninitialized fresh_state"
    by (simp add: uninitialized_def fresh_state_def)
  have i: "init_on_empty False session_calls"
    by (simp add: session_calls_def)
  have "Init \<in> set session_calls"
    by (simp add: session_calls_def)
  with history_in_step_with_table [OF u i] u i show ?thesis
    by blast
qed

text \<open>
  C3. After every \<open>addSnapshot\<close>, whatever calls and edits came before it from the
  uninitialized state (repeated calls of \<open>initSnapshotDatabase\<close> included), the length is at
  most 20, and so is the number of rows in the table.
\<close>

theorem record_keeps_length_within_limit:
  assumes "uninitialized s"
  shows "snapshotLength (run s (cs @ [Record])) \<le> 20 \<and>
         length (rows (db_snapshots (run s (cs @ [Record])))) \<le> 20"
proof -
  have "hist_inv (run s cs)"
    by (rule run_hist_inv [OF uninitialized_hist_inv [OF assms]])
  then have "synced (run s (cs @ [Record]))"
    by (simp add: run_snoc addSnapshot_synced)
  then show ?thesis
    by (simp add: synced_def)
qed

theorem record_keeps_length_within_limit_witness:
  "uninitialized fresh_state \<and>
   snapshotLength (run fresh_state ((Init # replicate 25 Record) @ [Record])) \<le> 20 \<and>
   length (rows (db_snapshots (run fresh_state ((Init # replicate 25 Record) @ [Record])))) \<le> 20 \<and>
   snapshotLength (run fresh_state ((Init # replicate 25 Record) @ [Record])) = 20"
proof -
  have u: "uninitialized fresh_state"
    by (simp add: uninitialized_def fresh_state_def)
  have "snapshotLength (run fresh_state ((Init # replicate 25 Record) @ [Record])) = 20"
    by code_simp
  with record_keeps_length_within_limit [OF u, of "Init # replicate 25 Record"] u
  show ?thesis by blast
qed

text \<open>
  C4. Branch truncation. In every state reached from the uninitialized one, if the cursor is
  below the number of existing keys minus 1, then \<open>addSnapshot\<close> resolves with a table that
  holds the rows up to and including the one at the cursor (that one with its \<open>index\<close> set to
  the current slide index, the others as they were), followed by the new row; the cursor moves
  to the new row and the length is the cursor plus 1. The keys removed from the table are
  exactly the keys after the cursor position. With the rows A, B, C, D and the cursor on B,
  the result is A, B, E with cursor 2 and length 3.
\<close>

theorem addSnapshot_truncates_redo_branch:
  assumes "uninitialized s0" and "s = run s0 cs"
    and "snapshotCursor s < int (length (rows (db_snapshots s))) - 1"
  shows "addSnapshot no_faults s =
           (None, s\<lparr>db_snapshots := (db_snapshots s)
                      \<lparr>rows := take (nat (snapshotCursor s)) (rows (db_snapshots s)) @
                               [(rows (db_snapshots s) ! nat (snapshotCursor s))
                                  \<lparr>index := slidesStore_slideIndex s\<rparr>,
                                \<lparr>id_key = next_id (db_snapshots s),
                                  index = slidesStore_slideIndex s,
                                  slides = slidesStore_slides s\<rparr>],
                        next_id := Suc (next_id (db_snapshots s))\<rparr>,
                    snapshotCursor := snapshotCursor s + 1,
                    snapshotLength := snapshotCursor s + 2\<rparr>) \<and>
         set (map id_key (rows (db_snapshots s))) -
           set (map id_key (rows (db_snapshots (snd (addSnapshot no_faults s))))) =
         set (drop (Suc (nat (snapshotCursor s))) (map id_key (rows (db_snapshots s))))"
proof -
  let ?t = "db_snapshots s"
  let ?c = "nat (snapshotCursor s)"
  have inv: "hist_inv s"
    unfolding assms(2) by (rule run_hist_inv [OF uninitialized_hist_inv [OF assms(1)]])
  then have wf: "table_wf ?t"
    by (simp add: hist_inv_def)
  from inv assms(3) have c0: "0 \<le> snapshotCursor s" and c2: "snapshotCursor s \<le> 18"
    unfolding hist_inv_def uninitialized_def by auto
  from c0 assms(3) have cn: "?c < length (rows ?t)"
    by linarith
  have closed: "addSnapshot no_faults s =
      (None, s\<lparr>db_snapshots := ?t
                 \<lparr>rows := take ?c (rows ?t) @
                          [(rows ?t ! ?c)\<lparr>index := slidesStore_slideIndex s\<rparr>,
                           \<lparr>id_key = next_id ?t, index = slidesStore_slideIndex s,
                             slides = slidesStore_slides s\<rparr>],
                   next_id := Suc (next_id ?t)\<rparr>,
               snapshotCursor := snapshotCursor s + 1,
               snapshotLength := snapshotCursor s + 2\<rparr>)"
    by (simp add: addSnapshot_truncate [OF wf c0 assms(3) c2] take_Suc_patched [OF cn])
  have keys': "map id_key (rows (db_snapshots (snd (addSnapshot no_faults s)))) =
      take (Suc ?c) (map id_key (rows ?t)) @ [next_id ?t]"
    unfolding closed using cn by (simp add: take_Suc_conv_app_nth take_map)
  have "set (map id_key (rows ?t)) -
      set (map id_key (rows (db_snapshots (snd (addSnapshot no_faults s))))) =
      set (drop (Suc ?c) (map id_key (rows ?t)))"
    unfolding keys'
    by (rule removed_keys_after [OF table_wf_distinct [OF wf] table_wf_fresh [OF wf]])
  with closed show ?thesis by blast
qed

theorem addSnapshot_truncates_redo_branch_witness:
  "uninitialized fresh_state \<and> abcd_state = run fresh_state abcd_calls \<and>
   snapshotCursor abcd_state < int (length (rows (db_snapshots abcd_state))) - 1 \<and>
   addSnapshot no_faults abcd_state =
     (None,
      \<lparr>snapshotCursor = 2, snapshotLength = 3,
       db_snapshots =
         \<lparr>rows = [\<lparr>id_key = 1, index = 2, slides = [10, 11]\<rparr>,
                  \<lparr>id_key = 2, index = 1, slides = [1, 2, 3]\<rparr>,
                  \<lparr>id_key = 5, index = 1, slides = [1, 2, 9]\<rparr>],
          next_id = 6\<rparr>,
       slidesStore_slideIndex = 1, slidesStore_slides = [1, 2, 9],
       mainStore_activeElementIdList = [''e1'']\<rparr>) \<and>
   set (map id_key (rows (db_snapshots abcd_state))) -
     set (map id_key (rows (db_snapshots (snd (addSnapshot no_faults abcd_state))))) = {3, 4}"
proof -
  have u: "uninitialized fresh_state"
    by (simp add: uninitialized_def fresh_state_def)
  have r: "abcd_state = run fresh_state abcd_calls"
    by (simp add: abcd_reached)
  have c: "snapshotCursor abcd_state < int (length (rows (db_snapshots abcd_state))) - 1"
    by (simp add: abcd_state_def)
  have d: "drop (Suc (nat (snapshotCursor abcd_state))) (map id_key (rows (db_snapshots abcd_state))) =
           [3, 4]"
    by (simp add: abcd_state_def)
  have e: "abcd_state
      \<lparr>db_snapshots := (db_snapshots abcd_state)
         \<lparr>rows := take (nat (snapshotCursor abcd_state)) (rows (db_snapshots abcd_state)) @
                  [(rows (db_snapshots abcd_state) ! nat (snapshotCursor abcd_state))
                     \<lparr>index := slidesStore_slideIndex abcd_state\<rparr>,
                   \<lparr>id_key = next_id (db_snapshots abcd_state),
                     index = slidesStore_slideIndex abcd_state,
                     slides = slidesStore_slides abcd_state\<rparr>],
           next_id := Suc (next_id (db_snapshots abcd_state))\<rparr>,
       snapshotCursor := snapshotCursor abcd_state + 1,
       snapshotLength := snapshotCursor abcd_state + 2\<rparr> =
     \<lparr>snapshotCursor = 2, snapshotLength = 3,
       db_snapshots =
         \<lparr>rows = [\<lparr>id_key = 1, index = 2, slides = [10, 11]\<rparr>,
                  \<lparr>id_key = 2, index = 1, slides = [1, 2, 3]\<rparr>,
                  \<lparr>id_key = 5, index = 1, slides = [1, 2, 9]\<rparr>],
          next_id = 6\<rparr>,
       slidesStore_slideIndex = 1, slidesStore_slides = [1, 2, 9],
       mainStore_activeElementIdList = [''e1'']\<rparr>"
    by (simp add: abcd_state_def)
  note t = addSnapshot_truncates_redo_branch [OF u r c, unfolded d e]
  have s: "set [3::nat, 4] = {3, 4}"
    by simp
  from u r c conjunct1 [OF t] conjunct2 [OF t, unfolded s] show ?thesis
    by (intro conjI)
qed

text \<open>
  C5. Capacity eviction. In every state reached from the uninitialized one in which the table
  holds 20 rows and the cursor is on the last one, \<open>addSnapshot\<close> resolves with a table that
  again holds 20 rows: the old keys without the first, in order, followed by the key of the
  new row, which captures the current slides and slide index. The slides of the surviving
  rows are as they were. Exactly one key, the oldest, has gone; the cursor is 19 and the
  length 20.
\<close>

theorem addSnapshot_evicts_oldest_at_capacity:
  assumes "uninitialized s0" and "s = run s0 cs"
    and "length (rows (db_snapshots s)) = 20" and "snapshotCursor s = 19"
    and "s' = snd (addSnapshot no_faults s)"
  shows "fst (addSnapshot no_faults s) = None \<and>
         length (rows (db_snapshots s')) = 20 \<and>
         map id_key (rows (db_snapshots s')) =
           tl (map id_key (rows (db_snapshots s))) @ [next_id (db_snapshots s)] \<and>
         map slides (rows (db_snapshots s')) =
           tl (map slides (rows (db_snapshots s))) @ [slidesStore_slides s] \<and>
         last (rows (db_snapshots s')) =
           \<lparr>id_key = next_id (db_snapshots s), index = slidesStore_slideIndex s,
             slides = slidesStore_slides s\<rparr> \<and>
         set (map id_key (rows (db_snapshots s))) - set (map id_key (rows (db_snapshots s'))) =
           {hd (map id_key (rows (db_snapshots s)))} \<and>
         snapshotCursor s' = 19 \<and> snapshotLength s' = 20"
proof -
  let ?t = "db_snapshots s"
  have inv: "hist_inv s"
    unfolding assms(2) by (rule run_hist_inv [OF uninitialized_hist_inv [OF assms(1)]])
  then have wf: "table_wf ?t"
    by (simp add: hist_inv_def)
  have c: "\<not> (0 \<le> snapshotCursor s \<and> snapshotCursor s < int (length (rows ?t)) - 1)"
    using assms(3,4) by simp
  have n: "length (rows ?t) \<ge> 20"
    using assms(3) by simp
  have ne: "map id_key (rows ?t) \<noteq> []"
    using assms(3) by (cases "rows ?t") simp_all
  note closed = addSnapshot_evict [OF wf c n]
  have rows': "rows (db_snapshots s') =
      tl (patched (rows ?t) (length (rows ?t) - 2) (slidesStore_slideIndex s)) @
      [\<lparr>id_key = next_id ?t, index = slidesStore_slideIndex s, slides = slidesStore_slides s\<rparr>]"
    unfolding assms(5) closed by simp
  have keys': "map id_key (rows (db_snapshots s')) = tl (map id_key (rows ?t)) @ [next_id ?t]"
    unfolding rows' by (simp add: map_tl keys_patched)
  have "fst (addSnapshot no_faults s) = None"
    unfolding closed by simp
  moreover have "length (rows (db_snapshots s')) = 20"
    unfolding rows' using assms(3) by (simp add: length_patched)
  moreover have "map slides (rows (db_snapshots s')) =
      tl (map slides (rows ?t)) @ [slidesStore_slides s]"
    unfolding rows' by (simp add: map_tl slides_patched)
  moreover have "last (rows (db_snapshots s')) =
      \<lparr>id_key = next_id ?t, index = slidesStore_slideIndex s, slides = slidesStore_slides s\<rparr>"
    unfolding rows' by simp
  moreover have "set (map id_key (rows ?t)) - set (map id_key (rows (db_snapshots s'))) =
      {hd (map id_key (rows ?t))}"
    unfolding keys'
    by (rule removed_first_key [OF table_wf_distinct [OF wf] table_wf_fresh [OF wf] ne])
  moreover have "snapshotCursor s' = 19" "snapshotLength s' = 20"
    unfolding assms(5) closed using assms(3) by simp_all
  ultimately show ?thesis
    using keys' by blast
qed

theorem addSnapshot_evicts_oldest_at_capacity_witness:
  "uninitialized fresh_state \<and>
   length (rows (db_snapshots full_state)) = 20 \<and> snapshotCursor full_state = 19 \<and>
   map id_key (rows (db_snapshots full_state)) =
     [1, 2, 3, 4, 5, 6, 7, 8, 9, 10, 11, 12, 13, 14, 15, 16, 17, 18, 19, 20] \<and>
   fst (addSnapshot no_faults full_state) = None \<and>
   length (rows (db_snapshots (snd (addSnapshot no_faults full_state)))) = 20 \<and>
   map id_key (rows (db_snapshots (snd (addSnapshot no_faults full_state)))) =
     [2, 3, 4, 5, 6, 7, 8, 9, 10, 11, 12, 13, 14, 15, 16, 17, 18, 19, 20, 21] \<and>
   snapshotCursor (snd (addSnapshot no_faults full_state)) = 19 \<and>
   snapshotLength (snd (addSnapshot no_faults full_state)) = 20"
proof -
  have u: "uninitialized fresh_state"
    by (simp add: uninitialized_def fresh_state_def)
  have n: "length (rows (db_snapshots full_state)) = 20"
    unfolding full_state_def full_calls_def by code_simp
  have c: "snapshotCursor full_state = 19"
    unfolding full_state_def full_calls_def by code_simp
  have k: "map id_key (rows (db_snapshots full_state)) =
      [1, 2, 3, 4, 5, 6, 7, 8, 9, 10, 11, 12, 13, 14, 15, 16, 17, 18, 19, 20]"
    unfolding full_state_def full_calls_def by code_simp
  have i: "next_id (db_snapshots full_state) = 21"
    unfolding full_state_def full_calls_def by code_simp
  note t = addSnapshot_evicts_oldest_at_capacity [OF u full_state_def n c refl]
  from t have "map id_key (rows (db_snapshots (snd (addSnapshot no_faults full_state)))) =
      tl (map id_key (rows (db_snapshots full_state))) @ [next_id (db_snapshots full_state)]"
    by blast
  then have k': "map id_key (rows (db_snapshots (snd (addSnapshot no_faults full_state)))) =
      [2, 3, 4, 5, 6, 7, 8, 9, 10, 11, 12, 13, 14, 15, 16, 17, 18, 19, 20, 21]"
    unfolding k i by simp
  from t u n c k k' show ?thesis
    by blast
qed

text \<open>
  C6. When \<open>unDo\<close> restores a row (the cursor is above 0 and the ordered read has a row
  \<open>r\<close> just before the cursor), the slides become those of \<open>r\<close> and the current slide index
  becomes the minimum of the stored index of \<open>r\<close> and the number of its slides minus 1.
  \<open>reDo\<close> does the same with the row just after the cursor. A stored index 7 with three
  slides gives the slide index 2.
\<close>

theorem restore_clamps_slide_index:
  assumes "\<not> fl Op_toArray"
  shows "(0 < snapshotCursor s \<and>
          js_nth (rows (db_snapshots s)) (snapshotCursor s - 1) = Some r \<longrightarrow>
            fst (unDo fl s) = None \<and>
            slidesStore_slides (snd (unDo fl s)) = slides r \<and>
            slidesStore_slideIndex (snd (unDo fl s)) =
              min (index r) (int (length (slides r)) - 1)) \<and>
         (snapshotCursor s < snapshotLength s - 1 \<and>
          js_nth (rows (db_snapshots s)) (snapshotCursor s + 1) = Some r \<longrightarrow>
            fst (reDo fl s) = None \<and>
            slidesStore_slides (snd (reDo fl s)) = slides r \<and>
            slidesStore_slideIndex (snd (reDo fl s)) =
              min (index r) (int (length (slides r)) - 1))"
  using assms
  by (simp add: unDo_restore reDo_restore restore_def table_toArray_def Let_def min_def)

theorem restore_clamps_slide_index_witness:
  "slidesStore_slides (snd (unDo no_faults clamp_state)) = [10, 11, 12] \<and>
   slidesStore_slideIndex (snd (unDo no_faults clamp_state)) = 2 \<and>
   slidesStore_slides (snd (reDo no_faults clamp_state)) = [20, 21, 22] \<and>
   slidesStore_slideIndex (snd (reDo no_faults clamp_state)) = 2"
  using restore_clamps_slide_index
          [of no_faults clamp_state "\<lparr>id_key = 1, index = 7, slides = [10, 11, 12]\<rparr>"]
        restore_clamps_slide_index
          [of no_faults clamp_state "\<lparr>id_key = 3, index = 7, slides = [20, 21, 22]\<rparr>"]
  by (simp add: clamp_state_def no_faults_def js_nth_def)

text \<open>
  C7. Calling \<open>unDo\<close> when the cursor is at most 0, and calling \<open>reDo\<close> when the cursor is
  at least length - 1, are complete no-ops: the action resolves without an error and the
  whole state (cursor, length, table, slides, current slide index, selection) is the state
  it was called in. This holds whatever table operation would fail, since none is called.
\<close>

theorem undo_redo_noop_at_bounds:
  "(snapshotCursor s \<le> 0 \<longrightarrow> unDo fl s = (None, s)) \<and>
   (snapshotCursor s \<ge> snapshotLength s - 1 \<longrightarrow> reDo fl s = (None, s))"
  by (simp add: unDo_restore reDo_restore)

theorem undo_redo_noop_at_bounds_witness:
  "unDo no_faults boundary_state = (None, boundary_state) \<and>
   reDo no_faults boundary_state = (None, boundary_state)"
  using undo_redo_noop_at_bounds [of boundary_state no_faults]
  by (simp add: boundary_state_def)

text \<open>
  C8. In every state reached right after an \<open>addSnapshot\<close> (the cursor is then length - 1),
  \<open>unDo\<close> followed by \<open>reDo\<close> both resolve without an error and give back the slides, the
  cursor, the length and the table of the state before the \<open>unDo\<close>. The selection is cleared
  by the two steps (it is left alone when the cursor is 0 and both steps are no-ops). The
  current slide index comes back clamped to the slides: it is the one before the \<open>unDo\<close>
  whenever that was at most the number of slides minus 1.
\<close>

theorem undo_then_redo_restores:
  assumes "uninitialized s0" and "s = run s0 (cs @ [Record])"
    and "u = snd (unDo no_faults s)" and "r = snd (reDo no_faults u)"
  shows "snapshotCursor s = snapshotLength s - 1 \<and>
         fst (unDo no_faults s) = None \<and> fst (reDo no_faults u) = None \<and>
         slidesStore_slides r = slidesStore_slides s \<and>
         snapshotCursor r = snapshotCursor s \<and>
         snapshotLength r = snapshotLength s \<and>
         db_snapshots r = db_snapshots s \<and>
         slidesStore_slideIndex r =
           (if snapshotCursor s = 0 then slidesStore_slideIndex s
            else min (slidesStore_slideIndex s) (int (length (slidesStore_slides s)) - 1)) \<and>
         mainStore_activeElementIdList r =
           (if snapshotCursor s = 0 then mainStore_activeElementIdList s else [])"
proof -
  have "hist_inv (run s0 cs)"
    by (rule run_hist_inv [OF uninitialized_hist_inv [OF assms(1)]])
  then have rec: "recorded s"
    unfolding assms(2) run_snoc step.simps using addSnapshot_recorded by blast
  then have "snapshotCursor s = snapshotLength s - 1"
    by (simp add: recorded_def)
  with recorded_round_trip [OF rec assms(3,4)] show ?thesis
    by blast
qed

theorem undo_then_redo_restores_witness:
  "uninitialized fresh_state \<and>
   snapshotCursor round_trip_state = 1 \<and>
   slidesStore_slides round_trip_state = [10, 11, 12] \<and>
   slidesStore_slides (snd (unDo no_faults round_trip_state)) = [10, 11] \<and>
   snapshotCursor (snd (unDo no_faults round_trip_state)) = 0 \<and>
   fst (unDo no_faults round_trip_state) = None \<and>
   fst (reDo no_faults (snd (unDo no_faults round_trip_state))) = None \<and>
   slidesStore_slides (snd (reDo no_faults (snd (unDo no_faults round_trip_state)))) =
     slidesStore_slides round_trip_state \<and>
   snapshotCursor (snd (reDo no_faults (snd (unDo no_faults round_trip_state)))) =
     snapshotCursor round_trip_state \<and>
   db_snapshots (snd (reDo no_faults (snd (unDo no_faults round_trip_state)))) =
     db_snapshots round_trip_state"
proof -
  have u: "uninitialized fresh_state"
    by (simp add: uninitialized_def fresh_state_def)
  have c: "snapshotCursor round_trip_state = 1"
    unfolding round_trip_state_def round_trip_calls_def by code_simp
  have d: "slidesStore_slides round_trip_state = [10, 11, 12]"
    unfolding round_trip_state_def round_trip_calls_def by code_simp
  have d': "slidesStore_slides (snd (unDo no_faults round_trip_state)) = [10, 11]"
    unfolding round_trip_state_def round_trip_calls_def by code_simp
  have c': "snapshotCursor (snd (unDo no_faults round_trip_state)) = 0"
    unfolding round_trip_state_def round_trip_calls_def by code_simp
  from undo_then_redo_restores [OF u round_trip_state_def refl refl] u c d d' c'
  show ?thesis by blast
qed

text \<open>
  C9. If a table operation fails during an action, the failure reaches the caller of the
  action and the cursor and the length are not advanced.

  The code does not do this for the field update of \<open>addSnapshot\<close>, the one table operation
  that is not awaited. In the state with one row (index 1), cursor 0, length 1 and current
  slide index 2, an \<open>addSnapshot\<close> whose update fails resolves without an error, leaves the
  old row with index 1 where a successful call sets it to 2, and advances the cursor to 1
  and the length to 2. (For the awaited operations see \<open>addSnapshot_rejected\<close> and the lemmas
  next to it.)
\<close>

theorem addSnapshot_advances_after_failed_update:
  "snapshotCursor one_row_state = 0 \<and> snapshotLength one_row_state = 1 \<and>
   slidesStore_slideIndex one_row_state = 2 \<and>
   map index (rows (db_snapshots one_row_state)) = [1] \<and>
   update_fails Op_update \<and>
   fst (addSnapshot update_fails one_row_state) = None \<and>
   snapshotCursor (snd (addSnapshot update_fails one_row_state)) = 1 \<and>
   snapshotLength (snd (addSnapshot update_fails one_row_state)) = 2 \<and>
   map index (rows (db_snapshots (snd (addSnapshot update_fails one_row_state)))) = [1, 2] \<and>
   map index (rows (db_snapshots (snd (addSnapshot no_faults one_row_state)))) = [2, 2]"
proof -
  have "snapshotCursor one_row_state = 0" "snapshotLength one_row_state = 1"
    "slidesStore_slideIndex one_row_state = 2"
    "map index (rows (db_snapshots one_row_state)) = [1]"
    unfolding one_row_state_def by code_simp+
  moreover have "update_fails Op_update"
    by (simp add: update_fails_def)
  moreover have "fst (addSnapshot update_fails one_row_state) = None"
    "snapshotCursor (snd (addSnapshot update_fails one_row_state)) = 1"
    "snapshotLength (snd (addSnapshot update_fails one_row_state)) = 2"
    "map index (rows (db_snapshots (snd (addSnapshot update_fails one_row_state)))) = [1, 2]"
    "map index (rows (db_snapshots (snd (addSnapshot no_faults one_row_state)))) = [2, 2]"
    unfolding one_row_state_def update_fails_def by code_simp+
  ultimately show ?thesis by blast
qed

text \<open>
  C10. Calling \<open>addSnapshot\<close> in the uninitialized state (cursor -1, length 0, empty table)
  gives exactly the result of \<open>initSnapshotDatabase\<close> there: the table holds the one appended
  row with the current slide index and the current slides, the cursor is 0 and the length
  is 1; nothing is deleted and no row is patched.
\<close>

theorem addSnapshot_uninitialized_is_init:
  assumes "uninitialized s"
  shows "addSnapshot no_faults s = initSnapshotDatabase no_faults s \<and>
         addSnapshot no_faults s =
           (None, s\<lparr>db_snapshots :=
                       \<lparr>rows = [\<lparr>id_key = next_id (db_snapshots s),
                                 index = slidesStore_slideIndex s,
                                 slides = slidesStore_slides s\<rparr>],
                        next_id = Suc (next_id (db_snapshots s))\<rparr>,
                     snapshotCursor := 0, snapshotLength := 1\<rparr>)"
  using assms
  by (simp add: uninitialized_def addSnapshot_def initSnapshotDatabase_def table_keys_def
      table_add_def table_bulkDelete_def no_faults_def js_slice_def js_nth_def Let_def)

theorem addSnapshot_uninitialized_is_init_witness:
  "uninitialized fresh_state \<and>
   addSnapshot no_faults fresh_state = initSnapshotDatabase no_faults fresh_state \<and>
   addSnapshot no_faults fresh_state =
     (None, fresh_state\<lparr>db_snapshots :=
                          \<lparr>rows = [\<lparr>id_key = 1, index = 1, slides = [10, 11]\<rparr>], next_id = 2\<rparr>,
                        snapshotCursor := 0, snapshotLength := 1\<rparr>)"
  using addSnapshot_uninitialized_is_init [of fresh_state]
  by (auto simp add: uninitialized_def fresh_state_def numeral_2_eq_2)

end
